theory Spec2Isabelle
  imports Complex_Main "HOL-Library.Char_ord" "HOL-Library.List_Lexorder" "HOL-Library.Multiset"
begin

section \<open>Data model of perturbed-overlap-network.py\<close>

text \<open>
  Gene identifiers are Python strings.  A log2 fold-change cell of the DESeq2 table is a
  float; it is modelled as a real number, with \<open>None\<close> standing for a missing value
  (NaN, the value for which \<open>pd.isna\<close> holds).
\<close>

type_synonym gene = string
type_synonym fc = "real option"

text \<open>The four category strings \<open>'perturbed'\<close>, \<open>'up'\<close>, \<open>'down'\<close> and \<open>'other'\<close>.\<close>

datatype category = Perturbed | Up | Down | Other

fun category_name :: "category \<Rightarrow> string" where
  "category_name Perturbed = ''perturbed''"
| "category_name Up = ''up''"
| "category_name Down = ''down''"
| "category_name Other = ''other''"

subsection \<open>Python dictionaries\<close>

text \<open>
  A Python \<open>dict\<close> keeps its keys in insertion order; assigning to an existing key
  replaces the value in place and assigning to a new key appends it.
\<close>

type_synonym ('k, 'v) dict = "('k \<times> 'v) list"

primrec dict_set :: "'k \<Rightarrow> 'v \<Rightarrow> ('k, 'v) dict \<Rightarrow> ('k, 'v) dict" where
  "dict_set k v [] = [(k, v)]"
| "dict_set k v (p # ps) = (if fst p = k then (k, v) # ps else p # dict_set k v ps)"

definition dict_get :: "('k, 'v) dict \<Rightarrow> 'k \<Rightarrow> 'v option" where
  "dict_get d k = map_of d k"

definition dict_keys :: "('k, 'v) dict \<Rightarrow> 'k list" where
  "dict_keys d = map fst d"

definition dict_contains :: "('k, 'v) dict \<Rightarrow> 'k \<Rightarrow> bool" where
  "dict_contains d k = (k \<in> set (dict_keys d))"

text \<open>\<open>dict(zip(keys, values))\<close>: the pairs are inserted from left to right.\<close>

definition dict_of_pairs :: "('k \<times> 'v) list \<Rightarrow> ('k, 'v) dict" where
  "dict_of_pairs kvs = foldl (\<lambda>d kv. dict_set (fst kv) (snd kv) d) [] kvs"

subsection \<open>The undirected graph (networkx \<open>Graph\<close>)\<close>

text \<open>
  \<open>nx.Graph\<close> stores an adjacency dictionary: every node is a key, mapped to the
  dictionary of its neighbours.  \<open>G.nodes()\<close> lists the keys in insertion order.
\<close>

type_synonym graph = "(gene, gene list) dict"

definition nodes :: "graph \<Rightarrow> gene list" where
  "nodes G = dict_keys G"

definition add_node :: "gene \<Rightarrow> graph \<Rightarrow> graph" where
  "add_node n G = (if dict_contains G n then G else G @ [(n, [])])"

definition add_neighbour :: "gene \<Rightarrow> gene \<Rightarrow> graph \<Rightarrow> graph" where
  "add_neighbour u v G =
     (case dict_get G u of
        None \<Rightarrow> G
      | Some ns \<Rightarrow> dict_set u (if v \<in> set ns then ns else ns @ [v]) G)"

definition add_edge :: "gene \<Rightarrow> gene \<Rightarrow> graph \<Rightarrow> graph" where
  "add_edge u v G = add_neighbour v u (add_neighbour u v (add_node v (add_node u G)))"

text \<open>
  \<open>nx.from_pandas_edgelist(df, 'source', 'target')\<close> (line 66 of \<open>load_network\<close>) adds
  one edge per row of the two columns, starting from the empty graph.
\<close>

definition from_pandas_edgelist :: "(gene \<times> gene) list \<Rightarrow> graph" where
  "from_pandas_edgelist E = foldl (\<lambda>G e. add_edge (fst e) (snd e) G) [] E"

text \<open>\<open>G.degree(n)\<close>: the number of neighbours, a self-loop counting twice.\<close>

definition degree :: "graph \<Rightarrow> gene \<Rightarrow> nat" where
  "degree G n =
     (case dict_get G n of
        None \<Rightarrow> 0
      | Some ns \<Rightarrow> length ns + (if n \<in> set ns then 1 else 0))"

text \<open>\<open>nx.degree_centrality(G)\<close>: 1 for every node of a graph with at most one node,
  otherwise the degree divided by \<open>n - 1\<close>.\<close>

definition degree_centrality :: "graph \<Rightarrow> (gene, real) dict" where
  "degree_centrality G =
     (if length (nodes G) \<le> 1 then map (\<lambda>n. (n, 1)) (nodes G)
      else map (\<lambda>n. (n, real (degree G n) * (1 / (real (length (nodes G)) - 1)))) (nodes G))"

subsection \<open>The differential-expression table\<close>

text \<open>
  The data frame returned by \<open>load_degs\<close> always has a \<open>gene\<close> column; the
  \<open>log2FC\<close> column may be absent.  The argument \<open>degs_df\<close> itself may be \<open>None\<close>.
\<close>

record degs_df =
  gene_col :: "gene list"
  log2FC_col :: "fc list option"

text \<open>The test \<open>degs_df is not None and 'log2FC' in degs_df.columns\<close>, returning the
  rows \<open>zip(degs_df['gene'], degs_df['log2FC'])\<close> when it succeeds.\<close>

definition deg_rows :: "degs_df option \<Rightarrow> (gene \<times> fc) list option" where
  "deg_rows degs =
     (case degs of
        None \<Rightarrow> None
      | Some df \<Rightarrow>
          (case log2FC_col df of
             None \<Rightarrow> None
           | Some fcs \<Rightarrow> Some (zip (gene_col df) fcs)))"

section \<open>categorize_genes\<close>

text \<open>The body of the loop of lines 175 to 186, for one node.\<close>

definition mark_deg ::
  "(gene, fc) dict \<Rightarrow> gene list \<Rightarrow> gene \<Rightarrow> (gene, category) dict \<Rightarrow> (gene, category) dict" where
  "mark_deg gene_to_fc perturbed_genes g cats =
     (if dict_contains gene_to_fc g \<and> g \<notin> set perturbed_genes then
        (case dict_get gene_to_fc g of
           None \<Rightarrow> cats
         | Some None \<Rightarrow> cats
         | Some (Some x) \<Rightarrow>
             if x > 1 then dict_set g Up cats
             else if x < - 1 then dict_set g Down cats
             else cats)
      else cats)"

definition categorize_genes ::
  "gene list \<Rightarrow> degs_df option \<Rightarrow> graph \<Rightarrow> (gene, category) dict" where
  "categorize_genes perturbed_genes degs G =
     (let c0 = foldl (\<lambda>cats n. dict_set n Other cats) [] (nodes G);
          c1 = foldl (\<lambda>cats g. if g \<in> set (nodes G) then dict_set g Perturbed cats else cats)
                 c0 perturbed_genes
      in case deg_rows degs of
           None \<Rightarrow> c1
         | Some rows \<Rightarrow>
             foldl (\<lambda>cats g. mark_deg (dict_of_pairs rows) perturbed_genes g cats) c1 (nodes G))"

section \<open>Sorting a data frame\<close>

text \<open>
  \<open>create_gene_table\<close> sorts by two columns, which pandas does with a stable
  lexicographic sort.  That sort is modelled as an insertion sort along a comparison
  \<open>le a b\<close> ("\<open>a\<close> may stand before \<open>b\<close>"): a row is placed before the first row it may
  stand before, so rows that compare equal keep the order of the table.
\<close>

fun insort_by :: "('a \<Rightarrow> 'a \<Rightarrow> bool) \<Rightarrow> 'a \<Rightarrow> 'a list \<Rightarrow> 'a list" where
  "insort_by le x [] = [x]"
| "insort_by le x (y # ys) = (if le x y then x # y # ys else y # insort_by le x ys)"

definition sort_by :: "('a \<Rightarrow> 'a \<Rightarrow> bool) \<Rightarrow> 'a list \<Rightarrow> 'a list" where
  "sort_by le xs = foldr (insort_by le) xs []"

text \<open>Descending order of a float column with \<open>na_position='last'\<close>.\<close>

fun desc_nan_last :: "fc \<Rightarrow> fc \<Rightarrow> bool" where
  "desc_nan_last _ None = True"
| "desc_nan_last None (Some _) = False"
| "desc_nan_last (Some x) (Some y) = (y \<le> x)"

text \<open>\<open>degs_df['log2FC'].abs()\<close> on one cell.\<close>

definition abs_log2FC :: "gene \<times> fc \<Rightarrow> fc" where
  "abs_log2FC row = map_option abs (snd row)"

text \<open>
  \<open>degs_df.sort_values('abs_log2FC', ascending=False)\<close> (line 496) sorts by one column
  with pandas' default \<open>kind='quicksort'\<close>, which is not stable: the result is the rows in
  descending order of the key, missing values last, and the order among rows of equal
  key is not determined by the source.  The sort is therefore a parameter of the model,
  constrained by \<open>desc_sort\<close> only.
\<close>

definition desc_sort :: "((gene \<times> fc) list \<Rightarrow> (gene \<times> fc) list) \<Rightarrow> bool" where
  "desc_sort sort_values =
     (\<forall>rows. mset (sort_values rows) = mset rows
             \<and> sorted_wrt (\<lambda>a b. desc_nan_last (abs_log2FC a) (abs_log2FC b))
                  (sort_values rows))"

text \<open>One sort of that kind, the stable one, for running examples and for the
  specification's "ties broken by table order".\<close>

definition stable_sort_abs_desc :: "(gene \<times> fc) list \<Rightarrow> (gene \<times> fc) list" where
  "stable_sort_abs_desc rows =
     sort_by (\<lambda>a b. desc_nan_last (abs_log2FC a) (abs_log2FC b)) rows"

section \<open>visualize_network\<close>

datatype py_error = KeyError | UnboundLocalError | LibraryError

subsection \<open>Layout (lines 364 to 381)\<close>

text \<open>
  The layout algorithms belong to networkx and are parameters of the model; each of them
  may raise, which is the value \<open>None\<close>.  Of \<open>nx.spring_layout\<close> only the force
  simulation is a parameter: it yields an array with one row of coordinates per node
  (here a function of the row index), and the function returns
  \<open>dict(zip(G, pos))\<close>.
\<close>

type_synonym position_map = "(gene, real \<times> real) dict"

record layout_lib =
  spring_coords :: "graph \<Rightarrow> real \<Rightarrow> nat \<Rightarrow> nat \<Rightarrow> (nat \<Rightarrow> real \<times> real) option"
  kamada_kawai_layout :: "graph \<Rightarrow> position_map option"
  circular_layout :: "graph \<Rightarrow> position_map option"
  spectral_layout :: "graph \<Rightarrow> position_map option"

definition spring_layout ::
  "layout_lib \<Rightarrow> graph \<Rightarrow> real \<Rightarrow> nat \<Rightarrow> nat \<Rightarrow> position_map option" where
  "spring_layout lib G k iterations seed =
     map_option (\<lambda>pos. dict_of_pairs (zip (nodes G) (map pos [0..<length (nodes G)])))
       (spring_coords lib G k iterations seed)"

text \<open>An exception of a library call outside any \<open>try\<close> ends \<open>visualize_network\<close>.\<close>

definition or_raise :: "'a option \<Rightarrow> py_error + 'a" where
  "or_raise r = (case r of None \<Rightarrow> Inl LibraryError | Some x \<Rightarrow> Inr x)"

definition compute_layout :: "layout_lib \<Rightarrow> string \<Rightarrow> graph \<Rightarrow> py_error + position_map" where
  "compute_layout lib layout G =
     (if layout = ''spring'' then or_raise (spring_layout lib G (3 / 10) 50 42)
      else if layout = ''kamada_kawai'' then
        (case kamada_kawai_layout lib G of
           Some pos \<Rightarrow> Inr pos
         | None \<Rightarrow> or_raise (spring_layout lib G (3 / 10) 50 42))
      else if layout = ''circular'' then or_raise (circular_layout lib G)
      else if layout = ''spectral'' then
        (case spectral_layout lib G of
           Some pos \<Rightarrow> Inr pos
         | None \<Rightarrow> or_raise (spring_layout lib G (3 / 10) 50 42))
      else Inl UnboundLocalError)"

subsection \<open>The fold-change map (lines 392 to 406)\<close>

definition fold_changes_of :: "degs_df option \<Rightarrow> graph \<Rightarrow> (gene, real) dict" where
  "fold_changes_of degs G =
     (case deg_rows degs of
        None \<Rightarrow> []
      | Some rows \<Rightarrow>
          foldl (\<lambda>fcs node.
                   if dict_contains (dict_of_pairs rows) node then
                     (case dict_get (dict_of_pairs rows) node of
                        Some (Some v) \<Rightarrow> dict_set node v fcs
                      | _ \<Rightarrow> fcs)
                   else fcs)
            [] (nodes G))"

subsection \<open>Node lists per category (lines 410 to 412)\<close>

definition node_categories :: "(gene, category) dict \<Rightarrow> category \<Rightarrow> gene list" where
  "node_categories gene_categories c = map fst (filter (\<lambda>p. snd p = c) gene_categories)"

subsection \<open>Node colours (lines 417 to 474)\<close>

text \<open>
  A call of \<open>nx.draw_networkx_nodes\<close> is recorded with its node list, its colour
  argument (a colour name, or a value per node with the colour map's \<open>vmin\<close> and
  \<open>vmax\<close>), its size and its opacity.
\<close>

datatype node_color = Flat string | Scale "real list" real real

record draw_call =
  nodelist :: "gene list"
  node_color :: node_color
  node_size :: real
  alpha :: real

text \<open>Python's \<open>min\<close> and \<open>max\<close> of a non-empty list.\<close>

fun py_min :: "real list \<Rightarrow> real" where
  "py_min [] = 0"
| "py_min [x] = x"
| "py_min (x # xs) = min x (py_min xs)"

fun py_max :: "real list \<Rightarrow> real" where
  "py_max [] = 0"
| "py_max [x] = x"
| "py_max (x # xs) = max x (py_max xs)"

text \<open>Lines 444 to 448 and 308 to 312: the domain of the diverging colour map, built
  only under the guard \<open>if perturbed_fc:\<close>.\<close>

definition color_domain :: "real list \<Rightarrow> (real \<times> real) option" where
  "color_domain fcs =
     (if fcs = [] then None
      else Some (min (py_min fcs) (- 1), max (py_max fcs) 1))"

text \<open>Lines 437 to 442: the perturbed nodes that have a fold change, and those values.\<close>

definition valid_perturbed :: "(gene, category) dict \<Rightarrow> (gene, real) dict \<Rightarrow> gene list" where
  "valid_perturbed gene_categories fold_changes =
     filter (\<lambda>g. dict_contains fold_changes g) (node_categories gene_categories Perturbed)"

definition perturbed_fc :: "(gene, category) dict \<Rightarrow> (gene, real) dict \<Rightarrow> real list" where
  "perturbed_fc gene_categories fold_changes =
     List.map_filter (\<lambda>g. dict_get fold_changes g) (node_categories gene_categories Perturbed)"

definition draw_perturbed ::
  "(gene, category) dict \<Rightarrow> (gene, real) dict \<Rightarrow> real \<Rightarrow> draw_call" where
  "draw_perturbed gene_categories fold_changes sz =
     (let purple = \<lparr>nodelist = node_categories gene_categories Perturbed,
                     node_color = Flat ''purple'', node_size = sz * 1.5, alpha = 1\<rparr>
      in if node_categories gene_categories Perturbed \<noteq> [] \<and> fold_changes \<noteq> [] then
           (case color_domain (perturbed_fc gene_categories fold_changes) of
              Some (vmin, vmax) \<Rightarrow>
                \<lparr>nodelist = valid_perturbed gene_categories fold_changes,
                 node_color = Scale (perturbed_fc gene_categories fold_changes) vmin vmax,
                 node_size = sz * 1.5, alpha = 1\<rparr>
            | None \<Rightarrow> purple)
         else purple)"

definition draw_nodes ::
  "(gene, category) dict \<Rightarrow> (gene, real) dict \<Rightarrow> real \<Rightarrow> draw_call list" where
  "draw_nodes gene_categories fold_changes sz =
     (if node_categories gene_categories Other \<noteq> [] then
        [\<lparr>nodelist = node_categories gene_categories Other,
          node_color = Flat ''lightgray'', node_size = sz / 2, alpha = 0.5\<rparr>]
      else [])
     @ (if node_categories gene_categories Down \<noteq> [] then
          [\<lparr>nodelist = node_categories gene_categories Down,
            node_color = Flat ''blue'', node_size = sz, alpha = 0.8\<rparr>]
        else [])
     @ (if node_categories gene_categories Up \<noteq> [] then
          [\<lparr>nodelist = node_categories gene_categories Up,
            node_color = Flat ''red'', node_size = sz, alpha = 0.8\<rparr>]
        else [])
     @ [draw_perturbed gene_categories fold_changes sz]"

text \<open>The colour bar of the main view exists exactly when the scale was drawn.\<close>

definition colorbar :: "(gene, category) dict \<Rightarrow> (gene, real) dict \<Rightarrow> (real \<times> real) option" where
  "colorbar gene_categories fold_changes =
     (if node_categories gene_categories Perturbed \<noteq> [] \<and> fold_changes \<noteq> [] then
        color_domain (perturbed_fc gene_categories fold_changes)
      else None)"

subsection \<open>Label selection (lines 476 to 504)\<close>

definition important_nodes :: "(gene, category) dict \<Rightarrow> gene list" where
  "important_nodes gene_categories =
     node_categories gene_categories Perturbed @ node_categories gene_categories Up
       @ node_categories gene_categories Down"

text \<open>Lines 494 to 497: the first ten rows, by descending absolute fold change, among
  the rows whose gene is a node of the graph.  The first argument is the sort of
  line 496.\<close>

definition top_fc_genes ::
  "((gene \<times> fc) list \<Rightarrow> (gene \<times> fc) list) \<Rightarrow> graph \<Rightarrow> (gene \<times> fc) list \<Rightarrow> gene list" where
  "top_fc_genes sort_values G rows =
     map fst (take 10 (filter (\<lambda>row. fst row \<in> set (nodes G)) (sort_values rows)))"

definition nodes_to_label ::
  "((gene \<times> fc) list \<Rightarrow> (gene \<times> fc) list) \<Rightarrow> graph \<Rightarrow> (gene, category) dict
     \<Rightarrow> degs_df option \<Rightarrow> gene list" where
  "nodes_to_label sort_values G gene_categories degs =
     (if length (nodes G) \<le> 50 then nodes G
      else
        (case deg_rows degs of
           None \<Rightarrow> important_nodes gene_categories
         | Some rows \<Rightarrow>
             foldl (\<lambda>labels gene. if gene \<notin> set labels then labels @ [gene] else labels)
               (important_nodes gene_categories) (top_fc_genes sort_values G rows)))"

section \<open>create_labeled_network\<close>

text \<open>Lines 253 to 262: one flat colour per category that has nodes.\<close>

definition labeled_draw_nodes :: "(gene, category) dict \<Rightarrow> real \<Rightarrow> draw_call list" where
  "labeled_draw_nodes gene_categories sz =
     concat (map (\<lambda>(category, color).
                   if node_categories gene_categories category \<noteq> [] then
                     [\<lparr>nodelist = node_categories gene_categories category,
                       node_color = Flat color,
                       node_size = (if category = Other then sz / 3
                                    else if category \<in> {Up, Down} then sz / 1.5 else sz),
                       alpha = (if category = Other then 0.4
                                else if category \<in> {Up, Down} then 0.6 else 0.8)\<rparr>]
                   else [])
       [(Other, ''lightgray''), (Down, ''blue''), (Up, ''red''), (Perturbed, ''purple'')])"

text \<open>Lines 300 to 321: the colour bar of the detailed view.\<close>

definition labeled_colorbar ::
  "(gene, category) dict \<Rightarrow> (gene, real) dict \<Rightarrow> (real \<times> real) option" where
  "labeled_colorbar gene_categories fold_changes =
     (if node_categories gene_categories Perturbed \<noteq> [] \<and> fold_changes \<noteq> [] then
        color_domain (perturbed_fc gene_categories fold_changes)
      else None)"

section \<open>create_gene_table\<close>

record rank_row =
  Gene :: gene
  Category :: category
  Degree :: nat
  Centrality :: real
  Betweenness :: real
  log2FC :: fc

text \<open>\<open>d.get(gene, 0)\<close> on a dictionary of floats.\<close>

definition get_or_zero :: "(gene, real) dict \<Rightarrow> gene \<Rightarrow> real" where
  "get_or_zero d g = (case dict_get d g of None \<Rightarrow> 0 | Some x \<Rightarrow> x)"

text \<open>
  The order of \<open>sort_values(['Category', key], ascending=[True, False])\<close>: the category
  strings ascending, then the key descending with missing values last.
\<close>

definition category_then ::
  "(rank_row \<Rightarrow> fc) \<Rightarrow> rank_row \<Rightarrow> rank_row \<Rightarrow> bool" where
  "category_then key a b =
     (category_name (Category a) < category_name (Category b)
      \<or> (category_name (Category a) = category_name (Category b)
          \<and> desc_nan_last (key a) (key b)))"

text \<open>
  \<open>nx.betweenness_centrality\<close> is a parameter.  A row's \<open>log2FC\<close> is \<open>None\<close> where the
  source writes the string \<open>'NA'\<close>; \<open>pd.to_numeric(..., errors='coerce')\<close> turns exactly
  those cells into NaN.  With no important gene the data frame has no columns and
  \<open>sort_values\<close> raises \<open>KeyError\<close>, which the enclosing \<open>try\<close> reports.
\<close>

definition table_data ::
  "(graph \<Rightarrow> (gene, real) dict) \<Rightarrow> graph \<Rightarrow> (gene, category) dict \<Rightarrow> (gene, real) dict
     \<Rightarrow> rank_row list" where
  "table_data betweenness_centrality G gene_categories fold_changes =
     map (\<lambda>p. \<lparr>Gene = fst p, Category = snd p, Degree = degree G (fst p),
               Centrality = get_or_zero (degree_centrality G) (fst p),
               Betweenness = get_or_zero (betweenness_centrality G) (fst p),
               log2FC = dict_get fold_changes (fst p)\<rparr>)
       (filter (\<lambda>p. snd p \<in> {Perturbed, Up, Down}) gene_categories)"

definition create_gene_table ::
  "(graph \<Rightarrow> (gene, real) dict) \<Rightarrow> graph \<Rightarrow> (gene, category) dict \<Rightarrow> (gene, real) dict
     \<Rightarrow> py_error + rank_row list" where
  "create_gene_table betweenness_centrality G gene_categories fold_changes =
     (let table_df = table_data betweenness_centrality G gene_categories fold_changes
      in if table_df = [] then Inl KeyError
         else if \<not> list_all (\<lambda>r. log2FC r = None) table_df then
           Inr (sort_by (category_then log2FC) table_df)
         else Inr (sort_by (category_then (\<lambda>r. Some (Centrality r))) table_df))"

section \<open>Specification-level notions\<close>

text \<open>
  The category that the loop over the table gives to a gene, if it changes the gene's
  category at all, and the category a node ends with.  Both are read off the three
  rules of the classifier and are compared with \<open>categorize_genes\<close> below.
\<close>

definition deg_category :: "(gene, fc) dict \<Rightarrow> gene list \<Rightarrow> gene \<Rightarrow> category option" where
  "deg_category gene_to_fc perturbed_genes g =
     (if g \<in> set perturbed_genes then None
      else (case map_of gene_to_fc g of
              Some (Some x) \<Rightarrow> if x > 1 then Some Up else if x < - 1 then Some Down else None
            | _ \<Rightarrow> None))"

definition category_of :: "gene list \<Rightarrow> degs_df option \<Rightarrow> gene \<Rightarrow> category" where
  "category_of perturbed_genes degs g =
     (if g \<in> set perturbed_genes then Perturbed
      else (case deg_rows degs of
              None \<Rightarrow> Other
            | Some rows \<Rightarrow>
                (case deg_category (dict_of_pairs rows) perturbed_genes g of
                   None \<Rightarrow> Other | Some c \<Rightarrow> c)))"

text \<open>
  The label selection in the words of the specification: for a large graph the important
  nodes, plus the top ten nodes by absolute fold change among the graph members that are
  not already selected, ties in table order.  A node's fold change is the one the table
  assigns to it (one entry per gene, the last row of a gene giving its value).
\<close>

definition spec_top_fc_genes :: "graph \<Rightarrow> gene list \<Rightarrow> (gene \<times> fc) list \<Rightarrow> gene list" where
  "spec_top_fc_genes G selected rows =
     map fst (take 10 (filter (\<lambda>row. fst row \<in> set (nodes G) \<and> fst row \<notin> set selected)
                         (stable_sort_abs_desc (dict_of_pairs rows))))"

definition spec_nodes_to_label ::
  "graph \<Rightarrow> (gene, category) dict \<Rightarrow> degs_df option \<Rightarrow> gene list" where
  "spec_nodes_to_label G gene_categories degs =
     (if length (nodes G) \<le> 50 then nodes G
      else
        (case deg_rows degs of
           None \<Rightarrow> important_nodes gene_categories
         | Some rows \<Rightarrow>
             important_nodes gene_categories
               @ spec_top_fc_genes G (important_nodes gene_categories) rows))"

section \<open>Example inputs\<close>

text \<open>The scenario of four genes: edges A-B and B-C, an isolated node D.\<close>

definition small_graph :: graph where
  "small_graph = [(''A'', [''B'']), (''B'', [''A'', ''C'']), (''C'', [''B'']), (''D'', [])]"

definition small_degs :: "degs_df option" where
  "small_degs = Some \<lparr>gene_col = [''B'', ''C''], log2FC_col = Some [Some 2, Some (- 3)]\<rparr>"

text \<open>A star of 64 genes around a hub: the graph of the edge list
  \<open>(HUB, AA), (HUB, AB), ...\<close>.\<close>

definition star_genes :: "gene list" where
  "star_genes = concat (map (\<lambda>a. map (\<lambda>b. [a, b]) ''ABCDEFGH'') ''ABCDEFGH'')"

definition star_graph :: graph where
  "star_graph = (''HUB'', star_genes) # map (\<lambda>g. (g, [''HUB''])) star_genes"

text \<open>Eight strongly induced genes, a mildly changed gene listed twice, and another
  mildly changed gene, all in the star.\<close>

definition star_degs :: "degs_df option" where
  "star_degs =
     Some \<lparr>gene_col = [''AA'', ''AB'', ''AC'', ''AD'', ''AE'', ''AF'', ''AG'', ''AH'', ''DD'',
                        ''DD'', ''CC''],
           log2FC_col = Some [Some 12, Some 11, Some 10, Some 9, Some 8, Some 7, Some 6, Some 5,
                              Some (9 / 10), Some (9 / 10), Some (1 / 2)]\<rparr>"

definition star_rows :: "(gene \<times> fc) list" where
  "star_rows =
     [(''AA'', Some 12), (''AB'', Some 11), (''AC'', Some 10), (''AD'', Some 9), (''AE'', Some 8),
      (''AF'', Some 7), (''AG'', Some 6), (''AH'', Some 5), (''DD'', Some (9 / 10)),
      (''DD'', Some (9 / 10)), (''CC'', Some (1 / 2))]"

text \<open>A table whose values sit on the thresholds, and one with repeated genes and a
  missing value.\<close>

definition strong_degs :: "degs_df option" where
  "strong_degs =
     Some \<lparr>gene_col = [''A'', ''B'', ''C''], log2FC_col = Some [Some 5, Some 1, Some (- 1)]\<rparr>"

definition mixed_degs :: "degs_df option" where
  "mixed_degs =
     Some \<lparr>gene_col = [''A'', ''B'', ''C''], log2FC_col = Some [Some (1 / 2), Some 2, Some (- 3)]\<rparr>"

definition dup_degs :: "degs_df option" where
  "dup_degs = Some \<lparr>gene_col = [''B'', ''C'', ''B'', ''C'', ''Z''],
                     log2FC_col = Some [Some 2, Some 4, Some (- 3), None, Some 7]\<rparr>"

text \<open>A library whose energy-minimising and spectral layouts always fail, and whose
  force simulation puts node \<open>i\<close> at \<open>(k * i, seed)\<close>.\<close>

definition failing_lib :: layout_lib where
  "failing_lib =
     \<lparr>spring_coords = (\<lambda>G k iterations seed. Some (\<lambda>i. (k * real i, real seed))),
      kamada_kawai_layout = (\<lambda>G. None),
      circular_layout = (\<lambda>G. None),
      spectral_layout = (\<lambda>G. None)\<rparr>"

section \<open>Dictionary facts\<close>

lemma dict_set_keys:
  "fst ` set (dict_set k v d) = insert k (fst ` set d)"
  by (induction d) auto

lemma dict_set_distinct:
  "distinct (map fst d) \<Longrightarrow> distinct (map fst (dict_set k v d))"
  by (induction d) (auto simp: dict_set_keys)

lemma dict_set_map_of:
  "map_of (dict_set k v d) = (map_of d)(k \<mapsto> v)"
  by (induction d) auto

lemma dict_contains_map_of: "dict_contains d k \<longleftrightarrow> map_of d k \<noteq> None"
  by (simp add: dict_contains_def dict_keys_def map_of_eq_None_iff)

text \<open>A loop that assigns to the key it visits, or leaves the dictionary alone.\<close>

lemma foldl_upd_map_of:
  assumes "\<And>d g. step d g = (case f g of None \<Rightarrow> d | Some c \<Rightarrow> dict_set g c d)"
  shows "map_of (foldl step d0 xs) k
     = (if k \<in> set xs then (case f k of None \<Rightarrow> map_of d0 k | Some c \<Rightarrow> Some c)
        else map_of d0 k)"
  by (induction xs arbitrary: d0) (auto simp: assms dict_set_map_of split: option.splits)

lemma foldl_upd_keys:
  assumes "\<And>d g. step d g = (case f g of None \<Rightarrow> d | Some c \<Rightarrow> dict_set g c d)"
  shows "fst ` set (foldl step d0 xs) = fst ` set d0 \<union> {g \<in> set xs. f g \<noteq> None}"
  by (induction xs arbitrary: d0) (auto simp: assms dict_set_keys split: option.splits)

lemma foldl_upd_distinct:
  assumes "\<And>d g. step d g = (case f g of None \<Rightarrow> d | Some c \<Rightarrow> dict_set g c d)"
    and "distinct (map fst d0)"
  shows "distinct (map fst (foldl step d0 xs))"
  using assms(2)
  by (induction xs arbitrary: d0) (auto simp: assms(1) dict_set_distinct split: option.splits)

section \<open>The three loops of categorize_genes\<close>

lemma mark_deg_as_upd:
  "mark_deg gtf p g cats
     = (case deg_category gtf p g of None \<Rightarrow> cats | Some c \<Rightarrow> dict_set g c cats)"
  by (auto simp: mark_deg_def deg_category_def dict_contains_map_of dict_get_def
           split: option.splits)

lemma init_loop_map_of:
  "map_of (foldl (\<lambda>cats n. dict_set n Other cats) [] ns) g
     = (if g \<in> set ns then Some Other else None)"
  by (simp add: foldl_upd_map_of [where f = "\<lambda>_. Some Other"])

lemma init_loop_keys:
  "fst ` set (foldl (\<lambda>cats n. dict_set n Other cats) [] ns) = set ns"
  by (simp add: foldl_upd_keys [where f = "\<lambda>_. Some Other"])

lemma init_loop_distinct:
  "distinct (map fst (foldl (\<lambda>cats n. dict_set n Other cats) [] ns))"
  by (rule foldl_upd_distinct [where f = "\<lambda>_. Some Other"]) simp_all

lemma perturbed_loop_map_of:
  "map_of (foldl (\<lambda>cats g. if g \<in> N then dict_set g Perturbed cats else cats) d0 p) g
     = (if g \<in> set p \<and> g \<in> N then Some Perturbed else map_of d0 g)"
  by (simp add: foldl_upd_map_of [where f = "\<lambda>g. if g \<in> N then Some Perturbed else None"])

lemma perturbed_loop_keys:
  "fst ` set (foldl (\<lambda>cats g. if g \<in> N then dict_set g Perturbed cats else cats) d0 p)
     = fst ` set d0 \<union> (set p \<inter> N)"
  by (subst foldl_upd_keys [where f = "\<lambda>g. if g \<in> N then Some Perturbed else None"]) auto

lemma perturbed_loop_distinct:
  "distinct (map fst d0) \<Longrightarrow>
   distinct (map fst (foldl (\<lambda>cats g. if g \<in> N then dict_set g Perturbed cats else cats) d0 p))"
  by (rule foldl_upd_distinct [where f = "\<lambda>g. if g \<in> N then Some Perturbed else None"])
     simp_all

lemma deg_loop_map_of:
  "map_of (foldl (\<lambda>cats g. mark_deg gtf p g cats) d0 ns) g
     = (if g \<in> set ns
        then (case deg_category gtf p g of None \<Rightarrow> map_of d0 g | Some c \<Rightarrow> Some c)
        else map_of d0 g)"
  by (rule foldl_upd_map_of) (rule mark_deg_as_upd)

lemma deg_loop_keys:
  "fst ` set (foldl (\<lambda>cats g. mark_deg gtf p g cats) d0 ns)
     = fst ` set d0 \<union> {g \<in> set ns. deg_category gtf p g \<noteq> None}"
  by (rule foldl_upd_keys) (rule mark_deg_as_upd)

lemma deg_loop_distinct:
  "distinct (map fst d0) \<Longrightarrow>
   distinct (map fst (foldl (\<lambda>cats g. mark_deg gtf p g cats) d0 ns))"
  by (rule foldl_upd_distinct [where f = "deg_category gtf p"]) (simp_all add: mark_deg_as_upd)

lemma deg_category_perturbed: "g \<in> set p \<Longrightarrow> deg_category gtf p g = None"
  by (simp add: deg_category_def)

lemma categorize_genes_map_of:
  "map_of (categorize_genes p degs G) g
     = (if g \<in> set (nodes G) then Some (category_of p degs g) else None)"
  by (auto simp: categorize_genes_def category_of_def deg_loop_map_of perturbed_loop_map_of
        init_loop_map_of deg_category_perturbed split: option.splits)

lemma categorize_genes_keys:
  "fst ` set (categorize_genes p degs G) = set (nodes G)"
  by (auto simp: categorize_genes_def Let_def deg_loop_keys perturbed_loop_keys init_loop_keys
        split: option.splits)

lemma categorize_genes_distinct:
  "distinct (map fst (categorize_genes p degs G))"
  by (auto simp: categorize_genes_def Let_def deg_loop_distinct perturbed_loop_distinct
        init_loop_distinct split: option.splits)

section \<open>Graph construction\<close>

lemma add_node_nodes:
  "set (nodes (add_node n G)) = insert n (set (nodes G))"
  by (auto simp: add_node_def nodes_def dict_keys_def dict_contains_def)

lemma add_neighbour_nodes:
  "u \<in> set (nodes G) \<Longrightarrow> set (nodes (add_neighbour u v G)) = set (nodes G)"
  by (auto simp: add_neighbour_def nodes_def dict_keys_def dict_get_def dict_set_keys
           split: option.splits)

lemma add_edge_nodes:
  "set (nodes (add_edge u v G)) = insert u (insert v (set (nodes G)))"
  by (auto simp: add_edge_def add_neighbour_nodes add_node_nodes)

lemma foldl_add_edge_nodes:
  "set (nodes (foldl (\<lambda>G e. add_edge (fst e) (snd e) G) G0 E))
     = set (nodes G0) \<union> fst ` set E \<union> snd ` set E"
  by (induction E arbitrary: G0) (auto simp: add_edge_nodes)

lemma add_node_distinct:
  "distinct (nodes G) \<Longrightarrow> distinct (nodes (add_node n G))"
  by (auto simp: add_node_def nodes_def dict_keys_def dict_contains_def)

lemma add_neighbour_distinct:
  "distinct (nodes G) \<Longrightarrow> distinct (nodes (add_neighbour u v G))"
  by (auto simp: add_neighbour_def nodes_def dict_keys_def dict_set_distinct split: option.splits)

lemma add_edge_distinct:
  "distinct (nodes G) \<Longrightarrow> distinct (nodes (add_edge u v G))"
  by (simp add: add_edge_def add_neighbour_distinct add_node_distinct)

lemma foldl_add_edge_distinct:
  "distinct (nodes G0) \<Longrightarrow> distinct (nodes (foldl (\<lambda>G e. add_edge (fst e) (snd e) G) G0 E))"
  by (induction E arbitrary: G0) (auto simp: add_edge_distinct)

section \<open>Graph construction from an edge list\<close>

text \<open>
  Claim C9.  The nodes of the graph built from an edge list are exactly the identifiers
  that occur as a source or as a target of some row, each of them once, whatever
  duplicate or reciprocal rows the list holds.
\<close>

theorem graph_node_set_roundtrip:
  "set (nodes (from_pandas_edgelist E)) = fst ` set E \<union> snd ` set E
   \<and> distinct (nodes (from_pandas_edgelist E))"
  using foldl_add_edge_nodes [of "[]" E] foldl_add_edge_distinct [of "[]" E]
  by (simp add: from_pandas_edgelist_def nodes_def dict_keys_def)

theorem graph_node_set_roundtrip_witness:
  "set (nodes (from_pandas_edgelist [(''A'', ''B''), (''B'', ''C''), (''B'', ''A''), (''A'', ''B'')]))
     = {''A'', ''B'', ''C''}
   \<and> distinct (nodes (from_pandas_edgelist [(''A'', ''B''), (''B'', ''C''), (''B'', ''A''), (''A'', ''B'')]))"
  using graph_node_set_roundtrip [of "[(''A'', ''B''), (''B'', ''C''), (''B'', ''A''), (''A'', ''B'')]"]
  by auto

section \<open>The category map\<close>

text \<open>
  Claim C5.  The result of \<open>categorize_genes\<close> has exactly the nodes of the graph as its
  keys, each key once, and gives every node one of the four categories.
\<close>

theorem category_map_total:
  "distinct (dict_keys (categorize_genes perturbed_genes degs G))
   \<and> set (dict_keys (categorize_genes perturbed_genes degs G)) = set (nodes G)
   \<and> (\<forall>g \<in> set (nodes G).
        \<exists>c. dict_get (categorize_genes perturbed_genes degs G) g = Some c
             \<and> c \<in> {Perturbed, Up, Down, Other}
             \<and> (\<forall>c'. (g, c') \<in> set (categorize_genes perturbed_genes degs G) \<longrightarrow> c' = c))"
proof -
  let ?cats = "categorize_genes perturbed_genes degs G"
  have d: "distinct (map fst ?cats)" by (rule categorize_genes_distinct)
  have k: "set (map fst ?cats) = set (nodes G)"
    using categorize_genes_keys [of perturbed_genes degs G] by simp
  have v: "\<exists>c. dict_get ?cats g = Some c \<and> c \<in> {Perturbed, Up, Down, Other}
             \<and> (\<forall>c'. (g, c') \<in> set ?cats \<longrightarrow> c' = c)" if "g \<in> set (nodes G)" for g
  proof -
    have m: "map_of ?cats g = Some (category_of perturbed_genes degs g)"
      using that by (simp add: categorize_genes_map_of)
    have "category_of perturbed_genes degs g \<in> {Perturbed, Up, Down, Other}"
      by (cases "category_of perturbed_genes degs g") simp_all
    moreover have "c' = category_of perturbed_genes degs g" if "(g, c') \<in> set ?cats" for c'
      using map_of_is_SomeI [OF d that] m by simp
    ultimately show ?thesis using m by (simp add: dict_get_def)
  qed
  show ?thesis using d k v by (simp add: dict_keys_def)
qed

theorem category_map_total_witness:
  "distinct (dict_keys (categorize_genes [''A''] small_degs small_graph))
   \<and> set (dict_keys (categorize_genes [''A''] small_degs small_graph)) = {''A'', ''B'', ''C'', ''D''}
   \<and> (\<exists>c. dict_get (categorize_genes [''A''] small_degs small_graph) ''D'' = Some c)"
proof -
  have n: "set (nodes small_graph) = {''A'', ''B'', ''C'', ''D''}" by code_simp
  show ?thesis using category_map_total [of "[''A'']" small_degs small_graph] n by auto
qed

text \<open>
  Claim C2.  A node of the graph that is listed as perturbed gets the category
  \<open>perturbed\<close>, whatever the expression table says about it.
\<close>

theorem perturbed_precedence:
  assumes "g \<in> set (nodes G)" and "g \<in> set perturbed_genes"
  shows "dict_get (categorize_genes perturbed_genes degs G) g = Some Perturbed"
  using assms by (simp add: dict_get_def categorize_genes_map_of category_of_def)

theorem perturbed_precedence_witness:
  "''A'' \<in> set (nodes small_graph) \<and> ''A'' \<in> set [''A'']
   \<and> deg_rows strong_degs = Some [(''A'', Some 5), (''B'', Some 1), (''C'', Some (- 1))]
   \<and> dict_get (categorize_genes [''A''] strong_degs small_graph) ''A'' = Some Perturbed"
proof -
  have n: "''A'' \<in> set (nodes small_graph)" by code_simp
  have r: "deg_rows strong_degs = Some [(''A'', Some 5), (''B'', Some 1), (''C'', Some (- 1))]"
    by (simp add: deg_rows_def strong_degs_def)
  show ?thesis using perturbed_precedence [OF n, of "[''A'']" strong_degs] n r by simp
qed

text \<open>
  Claim C4.  A node outside the perturbed list whose fold change is exactly 1 or exactly
  -1 stays \<open>other\<close>; a node is \<open>up\<close> exactly when it is not perturbed and its fold
  change is greater than 1, and \<open>down\<close> exactly when it is not perturbed and its fold
  change is less than -1.
\<close>

theorem strict_inequality_boundary:
  assumes "g \<in> set (nodes G)"
  shows "(g \<notin> set perturbed_genes
          \<and> (\<exists>rows. deg_rows degs = Some rows
                \<and> (dict_get (dict_of_pairs rows) g = Some (Some 1)
                    \<or> dict_get (dict_of_pairs rows) g = Some (Some (- 1))))
          \<longrightarrow> dict_get (categorize_genes perturbed_genes degs G) g = Some Other)
       \<and> (dict_get (categorize_genes perturbed_genes degs G) g = Some Up
          \<longleftrightarrow> g \<notin> set perturbed_genes
              \<and> (\<exists>rows x. deg_rows degs = Some rows
                    \<and> dict_get (dict_of_pairs rows) g = Some (Some x) \<and> 1 < x))
       \<and> (dict_get (categorize_genes perturbed_genes degs G) g = Some Down
          \<longleftrightarrow> g \<notin> set perturbed_genes
              \<and> (\<exists>rows x. deg_rows degs = Some rows
                    \<and> dict_get (dict_of_pairs rows) g = Some (Some x) \<and> x < - 1))"
  using assms
  by (auto simp: dict_get_def categorize_genes_map_of category_of_def deg_category_def
           split: option.splits if_splits)

theorem strict_inequality_boundary_witness:
  "dict_get (categorize_genes [''A''] strong_degs small_graph) ''B'' = Some Other
   \<and> dict_get (categorize_genes [''A''] strong_degs small_graph) ''C'' = Some Other
   \<and> dict_get (categorize_genes [''A''] small_degs small_graph) ''B'' = Some Up
   \<and> dict_get (categorize_genes [''A''] small_degs small_graph) ''C'' = Some Down"
proof -
  have nB: "''B'' \<in> set (nodes small_graph)" and nC: "''C'' \<in> set (nodes small_graph)"
    by code_simp+
  have r: "deg_rows strong_degs = Some [(''A'', Some 5), (''B'', Some 1), (''C'', Some (- 1))]"
    by (simp add: deg_rows_def strong_degs_def)
  have r': "deg_rows small_degs = Some [(''B'', Some 2), (''C'', Some (- 3))]"
    by (simp add: deg_rows_def small_degs_def)
  have b: "dict_get (dict_of_pairs [(''A'', Some 5), (''B'', Some 1), (''C'', Some (- 1))]) ''B''
             = Some (Some (1::real))"
    by (simp add: dict_get_def dict_of_pairs_def)
  have c: "dict_get (dict_of_pairs [(''A'', Some 5), (''B'', Some 1), (''C'', Some (- 1))]) ''C''
             = Some (Some (- 1 :: real))"
    by (simp add: dict_get_def dict_of_pairs_def)
  have b': "dict_get (dict_of_pairs [(''B'', Some 2), (''C'', Some (- 3))]) ''B'' = Some (Some (2::real))"
    by (simp add: dict_get_def dict_of_pairs_def)
  have c': "dict_get (dict_of_pairs [(''B'', Some 2), (''C'', Some (- 3))]) ''C'' = Some (Some (- 3::real))"
    by (simp add: dict_get_def dict_of_pairs_def)
  show ?thesis
    using strict_inequality_boundary [OF nB, of "[''A'']" strong_degs]
      strict_inequality_boundary [OF nC, of "[''A'']" strong_degs]
      strict_inequality_boundary [OF nB, of "[''A'']" small_degs]
      strict_inequality_boundary [OF nC, of "[''A'']" small_degs]
      r r' b c b' c'
    by simp
qed

section \<open>The fold-change map\<close>

lemma foldl_dict_set_map_of:
  "map_of (foldl (\<lambda>d kv. dict_set (fst kv) (snd kv) d) d0 kvs) = map_of d0 ++ map_of (rev kvs)"
proof (induction kvs arbitrary: d0)
  case Nil
  show ?case by simp
next
  case (Cons kv kvs)
  show ?case
    by (simp add: Cons.IH dict_set_map_of fun_eq_iff map_add_def split: option.splits)
qed

lemma dict_of_pairs_map_of: "map_of (dict_of_pairs kvs) = map_of (rev kvs)"
  by (simp add: dict_of_pairs_def foldl_dict_set_map_of)

lemma last_occurrence_iff:
  "map_of (rev rows) g = Some cell
     \<longleftrightarrow> (\<exists>pre post. rows = pre @ (g, cell) # post \<and> g \<notin> fst ` set post)"
proof (induction rows rule: rev_induct)
  case Nil
  show ?case by simp
next
  case (snoc r rows)
  show ?case
  proof (cases "fst r = g")
    case True
    have "(\<exists>pre post. rows @ [r] = pre @ (g, cell) # post \<and> g \<notin> fst ` set post) \<longleftrightarrow> snd r = cell"
    proof
      assume "\<exists>pre post. rows @ [r] = pre @ (g, cell) # post \<and> g \<notin> fst ` set post"
      then obtain pre post where e: "rows @ [r] = pre @ (g, cell) # post" and n: "g \<notin> fst ` set post"
        by blast
      show "snd r = cell"
      proof (cases post rule: rev_cases)
        case Nil
        with e show ?thesis by simp
      next
        case (snoc post' y)
        with e have "r = y" by simp
        with snoc n True show ?thesis by force
      qed
    next
      assume "snd r = cell"
      with True have "rows @ [r] = rows @ (g, cell) # [] \<and> g \<notin> fst ` set []" by auto
      then show "\<exists>pre post. rows @ [r] = pre @ (g, cell) # post \<and> g \<notin> fst ` set post" by blast
    qed
    with True show ?thesis by (cases r) auto
  next
    case False
    have "(\<exists>pre post. rows @ [r] = pre @ (g, cell) # post \<and> g \<notin> fst ` set post)
            \<longleftrightarrow> (\<exists>pre post. rows = pre @ (g, cell) # post \<and> g \<notin> fst ` set post)"
    proof
      assume "\<exists>pre post. rows @ [r] = pre @ (g, cell) # post \<and> g \<notin> fst ` set post"
      then obtain pre post where e: "rows @ [r] = pre @ (g, cell) # post" and n: "g \<notin> fst ` set post"
        by blast
      show "\<exists>pre post. rows = pre @ (g, cell) # post \<and> g \<notin> fst ` set post"
      proof (cases post rule: rev_cases)
        case Nil
        with e False show ?thesis by auto
      next
        case (snoc post' y)
        with e have "rows = pre @ (g, cell) # post'" by simp
        moreover from snoc n have "g \<notin> fst ` set post'" by auto
        ultimately show ?thesis by blast
      qed
    next
      assume "\<exists>pre post. rows = pre @ (g, cell) # post \<and> g \<notin> fst ` set post"
      then obtain pre post where "rows = pre @ (g, cell) # post" and "g \<notin> fst ` set post" by blast
      with False have "rows @ [r] = pre @ (g, cell) # (post @ [r]) \<and> g \<notin> fst ` set (post @ [r])"
        by auto
      then show "\<exists>pre post. rows @ [r] = pre @ (g, cell) # post \<and> g \<notin> fst ` set post" by blast
    qed
    with False snoc show ?thesis by (cases r) auto
  qed
qed

lemma fold_changes_of_map_of:
  assumes "deg_rows degs = Some rows"
  shows "map_of (fold_changes_of degs G) g
           = (if g \<in> set (nodes G)
              then (case map_of (rev rows) g of Some (Some v) \<Rightarrow> Some v | _ \<Rightarrow> None)
              else None)"
proof -
  let ?f = "\<lambda>node. case map_of (rev rows) node of Some (Some v) \<Rightarrow> Some v | _ \<Rightarrow> None"
  have step: "(if dict_contains (dict_of_pairs rows) node then
                 (case dict_get (dict_of_pairs rows) node of
                    Some (Some v) \<Rightarrow> dict_set node v fcs | _ \<Rightarrow> fcs)
               else fcs)
              = (case ?f node of None \<Rightarrow> fcs | Some c \<Rightarrow> dict_set node c fcs)"
    for fcs :: "(gene, real) dict" and node
    by (auto simp: dict_contains_map_of dict_get_def dict_of_pairs_map_of split: option.splits)
  show ?thesis
    unfolding fold_changes_of_def assms option.case
    by (subst foldl_upd_map_of [where f = ?f, OF step]) (auto split: option.splits)
qed

text \<open>
  Claim C7.  Without a fold-change column the fold-change map is empty.  Otherwise a gene
  is a key of the map exactly when it is a node of the graph and its last row in the table
  has a value; the map holds the value of that last row; and a gene whose last row has
  no value is neither \<open>up\<close> nor \<open>down\<close>.
\<close>

theorem fold_change_map_construction:
  "(deg_rows degs = None \<longrightarrow> fold_changes_of degs G = [])
   \<and> (\<forall>rows. deg_rows degs = Some rows \<longrightarrow>
        (dict_contains (fold_changes_of degs G) g
           \<longleftrightarrow> g \<in> set (nodes G)
               \<and> (\<exists>pre v post. rows = pre @ (g, Some v) # post \<and> g \<notin> fst ` set post))
        \<and> (\<forall>pre cell post.
              rows = pre @ (g, cell) # post \<and> g \<notin> fst ` set post \<and> g \<in> set (nodes G)
              \<longrightarrow> dict_get (fold_changes_of degs G) g = cell)
        \<and> (\<forall>pre post.
              rows = pre @ (g, None) # post \<and> g \<notin> fst ` set post
              \<longrightarrow> dict_get (categorize_genes perturbed_genes degs G) g \<noteq> Some Up
                  \<and> dict_get (categorize_genes perturbed_genes degs G) g \<noteq> Some Down))"
proof (intro conjI allI impI)
  assume "deg_rows degs = None"
  then show "fold_changes_of degs G = []" by (simp add: fold_changes_of_def)
next
  fix rows assume r: "deg_rows degs = Some rows"
  have "dict_contains (fold_changes_of degs G) g
          \<longleftrightarrow> g \<in> set (nodes G) \<and> (\<exists>v. map_of (rev rows) g = Some (Some v))"
    by (auto simp: dict_contains_map_of fold_changes_of_map_of [OF r] split: option.splits)
  then show "dict_contains (fold_changes_of degs G) g
           \<longleftrightarrow> g \<in> set (nodes G)
               \<and> (\<exists>pre v post. rows = pre @ (g, Some v) # post \<and> g \<notin> fst ` set post)"
    by (simp add: last_occurrence_iff) blast
next
  fix rows pre cell post
  assume r: "deg_rows degs = Some rows"
    and h: "rows = pre @ (g, cell) # post \<and> g \<notin> fst ` set post \<and> g \<in> set (nodes G)"
  then have "map_of (rev rows) g = Some cell" using last_occurrence_iff [of rows g cell] by blast
  with h show "dict_get (fold_changes_of degs G) g = cell"
    by (simp add: dict_get_def fold_changes_of_map_of [OF r] split: option.splits)
next
  fix rows pre post
  assume r: "deg_rows degs = Some rows"
    and h: "rows = pre @ (g, None) # post \<and> g \<notin> fst ` set post"
  then have m: "map_of (rev rows) g = Some None" using last_occurrence_iff [of rows g None] by blast
  then have c: "category_of perturbed_genes degs g \<in> {Perturbed, Other}"
    by (simp add: category_of_def r deg_category_def dict_of_pairs_map_of)
  then show "dict_get (categorize_genes perturbed_genes degs G) g \<noteq> Some Up"
    by (auto simp: dict_get_def categorize_genes_map_of)
  from c show "dict_get (categorize_genes perturbed_genes degs G) g \<noteq> Some Down"
    by (auto simp: dict_get_def categorize_genes_map_of)
qed

theorem fold_change_map_construction_witness:
  "dict_get (fold_changes_of dup_degs small_graph) ''B'' = Some (- 3)
   \<and> dict_get (fold_changes_of dup_degs small_graph) ''C'' = None
   \<and> dict_get (categorize_genes [] dup_degs small_graph) ''C'' \<noteq> Some Up"
proof -
  have r: "deg_rows dup_degs
             = Some [(''B'', Some 2), (''C'', Some 4), (''B'', Some (- 3)), (''C'', None), (''Z'', Some 7)]"
    by (simp add: deg_rows_def dup_degs_def)
  have nB: "''B'' \<in> set (nodes small_graph)" and nC: "''C'' \<in> set (nodes small_graph)"
    by code_simp+
  have b: "[(''B'', Some 2), (''C'', Some 4), (''B'', Some (- 3)), (''C'', None), (''Z'', Some (7::real))]
             = [(''B'', Some 2), (''C'', Some 4)] @ (''B'', Some (- 3)) # [(''C'', None), (''Z'', Some 7)]
           \<and> ''B'' \<notin> fst ` set [(''C'', None :: fc), (''Z'', Some 7)] \<and> ''B'' \<in> set (nodes small_graph)"
    using nB by simp
  have c: "[(''B'', Some 2), (''C'', Some 4), (''B'', Some (- 3)), (''C'', None), (''Z'', Some (7::real))]
             = [(''B'', Some 2), (''C'', Some 4), (''B'', Some (- 3))] @ (''C'', None) # [(''Z'', Some 7)]
           \<and> ''C'' \<notin> fst ` set [(''Z'', Some (7::real))]"
    by simp
  from fold_change_map_construction [of dup_degs small_graph "''B''" "[]"] r b
  have 1: "dict_get (fold_changes_of dup_degs small_graph) ''B'' = Some (- 3)" by blast
  from fold_change_map_construction [of dup_degs small_graph "''C''" "[]"] r c nC
  have 2: "dict_get (fold_changes_of dup_degs small_graph) ''C'' = None"
    and 3: "dict_get (categorize_genes [] dup_degs small_graph) ''C'' \<noteq> Some Up" by blast+
  from 1 2 3 show ?thesis by simp
qed

section \<open>The colour domain\<close>

lemma py_min_Min: "xs \<noteq> [] \<Longrightarrow> py_min xs = Min (set xs)"
  by (induction xs rule: py_min.induct) (simp_all add: min.commute)

lemma py_max_Max: "xs \<noteq> [] \<Longrightarrow> py_max xs = Max (set xs)"
  by (induction xs rule: py_max.induct) (simp_all add: max.commute)

text \<open>
  Claim C3.  For a non-empty list of fold changes the colour domain is
  \<open>(min (minimum, -1), max (maximum, 1))\<close>, so \<open>vmin \<le> -1\<close> and \<open>1 \<le> vmax\<close>.
\<close>

theorem color_domain_rule:
  assumes "fcs \<noteq> []"
  shows "\<exists>vmin vmax. color_domain fcs = Some (vmin, vmax)
           \<and> vmin = min (Min (set fcs)) (- 1) \<and> vmax = max (Max (set fcs)) 1
           \<and> vmin \<le> - 1 \<and> 1 \<le> vmax"
  using assms by (simp add: color_domain_def py_min_Min py_max_Max)

theorem color_domain_rule_witness:
  "color_domain [1 / 4, 1 / 2] = Some (- 1, 1) \<and> color_domain [- 3, 2, 5] = Some (- 3, 5)"
proof -
  have a: "[1 / 4, 1 / 2 :: real] \<noteq> []" and b: "[- 3, 2, 5 :: real] \<noteq> []" by simp_all
  show ?thesis using color_domain_rule [OF a] color_domain_rule [OF b] by auto
qed

section \<open>Layout fallback\<close>

lemma foldl_dict_set_keys:
  "fst ` set (foldl (\<lambda>d kv. dict_set (fst kv) (snd kv) d) d0 kvs) = fst ` set d0 \<union> fst ` set kvs"
  by (induction kvs arbitrary: d0) (auto simp: dict_set_keys)

lemma foldl_dict_set_distinct:
  "distinct (map fst d0) \<Longrightarrow>
   distinct (map fst (foldl (\<lambda>d kv. dict_set (fst kv) (snd kv) d) d0 kvs))"
  by (induction kvs arbitrary: d0) (auto simp: dict_set_distinct)

lemma dict_of_zip_keys:
  "length vs = length ks \<Longrightarrow> set (dict_keys (dict_of_pairs (zip ks vs))) = set ks"
proof -
  assume "length vs = length ks"
  then have "map fst (zip ks vs) = ks" by simp
  then have "fst ` set (zip ks vs) = set ks" by (metis set_map)
  then show ?thesis by (simp add: dict_keys_def dict_of_pairs_def foldl_dict_set_keys)
qed

lemma dict_of_pairs_distinct: "distinct (dict_keys (dict_of_pairs kvs))"
  by (simp add: dict_keys_def dict_of_pairs_def foldl_dict_set_distinct)

lemma spring_layout_positions:
  assumes "spring_layout lib G k iterations seed = Some pos"
  shows "distinct (dict_keys pos) \<and> set (dict_keys pos) = set (nodes G)"
  using assms
  by (auto simp: spring_layout_def dict_of_pairs_distinct dict_of_zip_keys)

text \<open>
  Claim C8.  When the Kamada-Kawai or the spectral layout raises, the layout is computed
  by the call that the choice \<open>spring\<close> makes (\<open>k = 0.3\<close>, 50 iterations, seed 42), with
  the same outcome.  When that call returns, the layout is returned, not an error, and
  it holds exactly one coordinate for every node of the graph and for nothing else.
\<close>

theorem layout_fallback:
  assumes "(layout = ''kamada_kawai'' \<and> kamada_kawai_layout lib G = None)
           \<or> (layout = ''spectral'' \<and> spectral_layout lib G = None)"
  shows "compute_layout lib layout G = compute_layout lib ''spring'' G
       \<and> (\<forall>coords. spring_coords lib G (3 / 10) 50 42 = Some coords \<longrightarrow>
            (\<exists>pos. compute_layout lib layout G = Inr pos
               \<and> spring_layout lib G (3 / 10) 50 42 = Some pos
               \<and> distinct (dict_keys pos)
               \<and> set (dict_keys pos) = set (nodes G)
               \<and> (\<forall>g \<in> set (nodes G).
                    \<exists>xy. dict_get pos g = Some xy \<and> (\<forall>xy'. (g, xy') \<in> set pos \<longrightarrow> xy' = xy))))"
proof (intro conjI allI impI)
  show same: "compute_layout lib layout G = compute_layout lib ''spring'' G"
    using assms by (auto simp: compute_layout_def)
  fix coords assume c: "spring_coords lib G (3 / 10) 50 42 = Some coords"
  then obtain pos where p: "spring_layout lib G (3 / 10) 50 42 = Some pos"
    by (simp add: spring_layout_def)
  from spring_layout_positions [OF p]
  have d: "distinct (dict_keys pos)" and k: "set (dict_keys pos) = set (nodes G)" by simp_all
  have r: "compute_layout lib layout G = Inr pos"
    using same p by (simp add: compute_layout_def or_raise_def)
  have one: "\<exists>xy. dict_get pos g = Some xy \<and> (\<forall>xy'. (g, xy') \<in> set pos \<longrightarrow> xy' = xy)"
    if "g \<in> set (nodes G)" for g
  proof -
    from that k have "g \<in> fst ` set pos" by (simp add: dict_keys_def)
    then obtain xy where m: "map_of pos g = Some xy"
      by (metis map_of_eq_None_iff not_Some_eq)
    moreover have "xy' = xy" if "(g, xy') \<in> set pos" for xy'
      using d that m by (simp add: dict_keys_def)
    ultimately show ?thesis by (auto simp: dict_get_def)
  qed
  show "\<exists>pos. compute_layout lib layout G = Inr pos
               \<and> spring_layout lib G (3 / 10) 50 42 = Some pos
               \<and> distinct (dict_keys pos)
               \<and> set (dict_keys pos) = set (nodes G)
               \<and> (\<forall>g \<in> set (nodes G).
                    \<exists>xy. dict_get pos g = Some xy \<and> (\<forall>xy'. (g, xy') \<in> set pos \<longrightarrow> xy' = xy))"
    using r p d k one by blast
qed

theorem layout_fallback_witness:
  "compute_layout failing_lib ''kamada_kawai'' small_graph
     = Inr [(''A'', (0, 42)), (''B'', (3 / 10, 42)), (''C'', (3 / 5, 42)), (''D'', (9 / 10, 42))]
   \<and> compute_layout failing_lib ''spectral'' small_graph
     = compute_layout failing_lib ''spring'' small_graph
   \<and> set (dict_keys [(''A'', (0 :: real, 42 :: real)), (''B'', (3 / 10, 42)), (''C'', (3 / 5, 42)),
                      (''D'', (9 / 10, 42))])
     = set (nodes small_graph)"
proof -
  have k: "(''kamada_kawai'' = ''kamada_kawai'' \<and> kamada_kawai_layout failing_lib small_graph = None)
           \<or> (''kamada_kawai'' = ''spectral'' \<and> spectral_layout failing_lib small_graph = None)"
    and s: "(''spectral'' = ''kamada_kawai'' \<and> kamada_kawai_layout failing_lib small_graph = None)
           \<or> (''spectral'' = ''spectral'' \<and> spectral_layout failing_lib small_graph = None)"
    by (simp_all add: failing_lib_def)
  have c: "spring_coords failing_lib small_graph (3 / 10) 50 42
             = Some (\<lambda>i. (3 / 10 * real i, real 42))"
    by (simp add: failing_lib_def)
  have v: "spring_layout failing_lib small_graph (3 / 10) 50 42
     = Some [(''A'', (0, 42)), (''B'', (3 / 10, 42)), (''C'', (3 / 5, 42)), (''D'', (9 / 10, 42))]"
    by (simp add: spring_layout_def failing_lib_def small_graph_def nodes_def dict_keys_def
          dict_of_pairs_def upt_conv_Cons)
  from layout_fallback [OF k] c v
  have 1: "compute_layout failing_lib ''kamada_kawai'' small_graph
     = Inr [(''A'', (0, 42)), (''B'', (3 / 10, 42)), (''C'', (3 / 5, 42)), (''D'', (9 / 10, 42))]
     \<and> set (dict_keys [(''A'', (0 :: real, 42 :: real)), (''B'', (3 / 10, 42)), (''C'', (3 / 5, 42)),
                      (''D'', (9 / 10, 42))])
     = set (nodes small_graph)"
    by auto
  from layout_fallback [OF s]
  have 2: "compute_layout failing_lib ''spectral'' small_graph
     = compute_layout failing_lib ''spring'' small_graph" by simp
  from 1 2 show ?thesis by simp
qed

section \<open>Node colours\<close>

lemma node_categories_iff:
  assumes "distinct (map fst d)"
  shows "g \<in> set (node_categories d c) \<longleftrightarrow> map_of d g = Some c"
proof -
  have "g \<in> set (node_categories d c) \<longleftrightarrow> (g, c) \<in> set d"
    by (force simp: node_categories_def)
  then show ?thesis using assms by simp
qed

lemma perturbed_fc_values:
  "map Some (perturbed_fc cats fcs) = map (dict_get fcs) (valid_perturbed cats fcs)"
  by (simp add: perturbed_fc_def valid_perturbed_def List.map_filter_def dict_contains_map_of
        dict_get_def)

lemma valid_perturbed_set:
  "set (valid_perturbed cats fcs)
     = {g \<in> set (node_categories cats Perturbed). dict_contains fcs g}"
  by (auto simp: valid_perturbed_def)

lemma draw_perturbed_cases:
  "draw_perturbed cats fcs sz
     = \<lparr>nodelist = node_categories cats Perturbed, node_color = Flat ''purple'',
        node_size = sz * 1.5, alpha = 1\<rparr>
   \<or> (\<exists>vmin vmax. color_domain (perturbed_fc cats fcs) = Some (vmin, vmax)
        \<and> draw_perturbed cats fcs sz
            = \<lparr>nodelist = valid_perturbed cats fcs,
               node_color = Scale (perturbed_fc cats fcs) vmin vmax,
               node_size = sz * 1.5, alpha = 1\<rparr>)"
  by (auto simp: draw_perturbed_def Let_def split: option.splits)

lemma draw_call_ok_perturbed:
  assumes "distinct (map fst cats)"
  shows "(\<forall>g \<in> set (nodelist (draw_perturbed cats fcs sz)). map_of cats g = Some Perturbed)
       \<and> (\<forall>vals vmin vmax. node_color (draw_perturbed cats fcs sz) = Scale vals vmin vmax \<longrightarrow>
             (\<forall>g \<in> set (nodelist (draw_perturbed cats fcs sz)). dict_contains fcs g)
             \<and> map Some vals = map (dict_get fcs) (nodelist (draw_perturbed cats fcs sz))
             \<and> color_domain vals = Some (vmin, vmax))"
  using draw_perturbed_cases [of cats fcs sz] node_categories_iff [OF assms]
  by (auto simp: perturbed_fc_values valid_perturbed_set)

text \<open>
  Claim C10.  In both views a node list that holds an \<open>up\<close> node is drawn red and one that
  holds a \<open>down\<close> node is drawn blue, and every such node is drawn.  Only the main view
  draws with the colour scale, and then on perturbed nodes that have a fold change, with
  exactly their fold changes as values and the domain computed from those values.  The
  colour bars of both views use the domain of the same values.
\<close>

theorem color_scale_only_on_perturbed:
  assumes "distinct (dict_keys gene_categories)"
  shows "(\<forall>c \<in> set (draw_nodes gene_categories fold_changes sz)
               \<union> set (labeled_draw_nodes gene_categories sz').
            (\<forall>g \<in> set (nodelist c).
               (dict_get gene_categories g = Some Up \<longrightarrow> node_color c = Flat ''red'')
               \<and> (dict_get gene_categories g = Some Down \<longrightarrow> node_color c = Flat ''blue''))
            \<and> (\<forall>vals vmin vmax. node_color c = Scale vals vmin vmax \<longrightarrow>
                  (\<forall>g \<in> set (nodelist c).
                     dict_get gene_categories g = Some Perturbed \<and> dict_contains fold_changes g)
                  \<and> map Some vals = map (dict_get fold_changes) (nodelist c)
                  \<and> color_domain vals = Some (vmin, vmax)))
       \<and> (\<forall>g. dict_get gene_categories g = Some Up \<or> dict_get gene_categories g = Some Down \<longrightarrow>
              (\<exists>c \<in> set (draw_nodes gene_categories fold_changes sz). g \<in> set (nodelist c))
              \<and> (\<exists>c \<in> set (labeled_draw_nodes gene_categories sz'). g \<in> set (nodelist c)))
       \<and> (\<forall>d. colorbar gene_categories fold_changes = Some d
                \<or> labeled_colorbar gene_categories fold_changes = Some d \<longrightarrow>
              (\<exists>vals. map Some vals
                         = map (dict_get fold_changes)
                             (filter (dict_contains fold_changes)
                                (node_categories gene_categories Perturbed))
                     \<and> color_domain vals = Some d))"
proof -
  have d: "distinct (map fst gene_categories)" using assms by (simp add: dict_keys_def)
  note nc = node_categories_iff [OF d]
  note dp = draw_call_ok_perturbed [OF d, of fold_changes sz]
  have 1: "\<forall>c \<in> set (draw_nodes gene_categories fold_changes sz).
            (\<forall>g \<in> set (nodelist c).
               (dict_get gene_categories g = Some Up \<longrightarrow> node_color c = Flat ''red'')
               \<and> (dict_get gene_categories g = Some Down \<longrightarrow> node_color c = Flat ''blue''))
            \<and> (\<forall>vals vmin vmax. node_color c = Scale vals vmin vmax \<longrightarrow>
                  (\<forall>g \<in> set (nodelist c).
                     dict_get gene_categories g = Some Perturbed \<and> dict_contains fold_changes g)
                  \<and> map Some vals = map (dict_get fold_changes) (nodelist c)
                  \<and> color_domain vals = Some (vmin, vmax))"
    using dp by (auto simp: draw_nodes_def dict_get_def nc)
  have 2: "\<forall>c \<in> set (labeled_draw_nodes gene_categories sz').
            (\<forall>g \<in> set (nodelist c).
               (dict_get gene_categories g = Some Up \<longrightarrow> node_color c = Flat ''red'')
               \<and> (dict_get gene_categories g = Some Down \<longrightarrow> node_color c = Flat ''blue''))
            \<and> (\<forall>vals vmin vmax. node_color c \<noteq> Scale vals vmin vmax)"
    by (auto simp: labeled_draw_nodes_def dict_get_def nc)
  have 3: "(\<exists>c \<in> set (draw_nodes gene_categories fold_changes sz). g \<in> set (nodelist c))
              \<and> (\<exists>c \<in> set (labeled_draw_nodes gene_categories sz'). g \<in> set (nodelist c))"
    if "dict_get gene_categories g = Some Up \<or> dict_get gene_categories g = Some Down" for g
  proof -
    from that have m: "g \<in> set (node_categories gene_categories Up)
                      \<or> g \<in> set (node_categories gene_categories Down)"
      by (simp add: nc dict_get_def)
    then obtain k where k: "k = Up \<or> k = Down" and g: "g \<in> set (node_categories gene_categories k)"
      by blast
    then have ne: "node_categories gene_categories k \<noteq> []" by auto
    from k ne have "\<exists>c \<in> set (draw_nodes gene_categories fold_changes sz).
                      nodelist c = node_categories gene_categories k"
      by (auto simp: draw_nodes_def)
    moreover from k ne have "\<exists>c \<in> set (labeled_draw_nodes gene_categories sz').
                      nodelist c = node_categories gene_categories k"
      by (auto simp: labeled_draw_nodes_def)
    ultimately show ?thesis using g by metis
  qed
  have 4: "\<exists>vals. map Some vals
                         = map (dict_get fold_changes)
                             (filter (dict_contains fold_changes)
                                (node_categories gene_categories Perturbed))
                     \<and> color_domain vals = Some d"
    if "colorbar gene_categories fold_changes = Some d
                \<or> labeled_colorbar gene_categories fold_changes = Some d" for d
  proof -
    from that have "color_domain (perturbed_fc gene_categories fold_changes) = Some d"
      by (auto simp: colorbar_def labeled_colorbar_def split: if_splits)
    then show ?thesis
      using perturbed_fc_values [of gene_categories fold_changes]
      by (auto simp: valid_perturbed_def)
  qed
  show ?thesis using 1 2 3 4 by blast
qed

theorem color_scale_only_on_perturbed_witness:
  "node_color (draw_perturbed (categorize_genes [''A''] mixed_degs small_graph)
                 (fold_changes_of mixed_degs small_graph) 100) = Scale [1 / 2] (- 1) 1
   \<and> map Some [1 / 2]
       = map (dict_get (fold_changes_of mixed_degs small_graph))
           (nodelist (draw_perturbed (categorize_genes [''A''] mixed_degs small_graph)
                        (fold_changes_of mixed_degs small_graph) 100))
   \<and> color_domain [1 / 2] = Some (- 1, 1)"
proof -
  let ?cats = "categorize_genes [''A''] mixed_degs small_graph"
  let ?fcs = "fold_changes_of mixed_degs small_graph"
  have d: "distinct (dict_keys ?cats)"
    by (simp add: dict_keys_def categorize_genes_distinct)
  have m: "draw_perturbed ?cats ?fcs 100 \<in> set (draw_nodes ?cats ?fcs 100)"
    by (simp add: draw_nodes_def)
  have s: "node_color (draw_perturbed ?cats ?fcs 100) = Scale [1 / 2] (- 1) 1"
    by code_simp
  note t = color_scale_only_on_perturbed [OF d, of ?fcs 100 100]
  from t m s have "map Some [1 / 2] = map (dict_get ?fcs) (nodelist (draw_perturbed ?cats ?fcs 100))
                   \<and> color_domain [1 / 2] = Some (- 1, 1)"
    by blast
  with s show ?thesis by blast
qed

section \<open>Stable sorting\<close>

lemma insort_by_mset: "mset (insort_by le x ys) = add_mset x (mset ys)"
  by (induction ys) simp_all

lemma sort_by_mset: "mset (sort_by le xs) = mset xs"
  by (induction xs) (simp_all add: sort_by_def insort_by_mset)

lemma sort_by_set: "set (sort_by le xs) = set xs"
  using sort_by_mset [of le xs] by (metis set_mset_mset)

lemma insort_by_set: "set (insort_by le x ys) = insert x (set ys)"
  using insort_by_mset [of le x ys] by (metis set_mset_mset set_mset_add_mset_insert)

lemma insort_by_sorted:
  assumes total: "\<And>a b. le a b \<or> le b a"
    and trans: "\<And>a b c. le a b \<Longrightarrow> le b c \<Longrightarrow> le a c"
    and "sorted_wrt le ys"
  shows "sorted_wrt le (insort_by le x ys)"
  using assms(3)
proof (induction ys)
  case Nil
  show ?case by simp
next
  case (Cons y ys)
  show ?case
  proof (cases "le x y")
    case True
    with Cons.prems show ?thesis using trans by auto
  next
    case False
    with total have "le y x" by blast
    with False Cons show ?thesis by (auto simp: insort_by_set)
  qed
qed

lemma sort_by_sorted:
  assumes "\<And>a b. le a b \<or> le b a" and "\<And>a b c. le a b \<Longrightarrow> le b c \<Longrightarrow> le a c"
  shows "sorted_wrt le (sort_by le xs)"
proof (induction xs)
  case Nil
  show ?case by (simp add: sort_by_def)
next
  case (Cons x xs)
  have "sort_by le (x # xs) = insort_by le x (sort_by le xs)" by (simp add: sort_by_def)
  with Cons show ?case using insort_by_sorted [of le, OF assms] by simp
qed

lemma desc_nan_last_total: "desc_nan_last a b \<or> desc_nan_last b a"
  by (cases a; cases b) auto

lemma desc_nan_last_trans: "desc_nan_last a b \<Longrightarrow> desc_nan_last b c \<Longrightarrow> desc_nan_last a c"
  by (cases a; cases b; cases c) auto

lemma desc_nan_last_refl: "desc_nan_last a a"
  by (cases a) auto

text \<open>Stability: rows with the same key keep their order.\<close>

lemma insort_by_stable:
  assumes "\<And>a b. key a = key b \<Longrightarrow> le a b"
  shows "filter (\<lambda>y. key y = k) (insort_by le x ys)
           = (if key x = k then x # filter (\<lambda>y. key y = k) ys else filter (\<lambda>y. key y = k) ys)"
proof (induction ys)
  case Nil
  show ?case by simp
next
  case (Cons y ys)
  show ?case
  proof (cases "le x y")
    case True
    then show ?thesis by simp
  next
    case False
    with assms have "key x \<noteq> key y" by blast
    with False Cons show ?thesis by auto
  qed
qed

lemma sort_by_stable:
  assumes "\<And>a b. key a = key b \<Longrightarrow> le a b"
  shows "filter (\<lambda>y. key y = k) (sort_by le xs) = filter (\<lambda>y. key y = k) xs"
proof (induction xs)
  case Nil
  show ?case by (simp add: sort_by_def)
next
  case (Cons x xs)
  have "sort_by le (x # xs) = insort_by le x (sort_by le xs)" by (simp add: sort_by_def)
  with Cons show ?case by (simp add: insort_by_stable [of key le, OF assms])
qed

lemma stable_sort_abs_desc_props:
  "mset (stable_sort_abs_desc rows) = mset rows
   \<and> sorted_wrt (\<lambda>a b. desc_nan_last (abs_log2FC a) (abs_log2FC b)) (stable_sort_abs_desc rows)
   \<and> (\<forall>k. filter (\<lambda>r. abs_log2FC r = k) (stable_sort_abs_desc rows)
            = filter (\<lambda>r. abs_log2FC r = k) rows)"
proof -
  let ?le = "\<lambda>a b :: gene \<times> fc. desc_nan_last (abs_log2FC a) (abs_log2FC b)"
  have 1: "mset (stable_sort_abs_desc rows) = mset rows"
    by (simp add: stable_sort_abs_desc_def sort_by_mset)
  have 2: "sorted_wrt ?le (stable_sort_abs_desc rows)"
    unfolding stable_sort_abs_desc_def
    by (rule sort_by_sorted) (rule desc_nan_last_total, erule (1) desc_nan_last_trans)
  have 3: "filter (\<lambda>r. abs_log2FC r = k) (stable_sort_abs_desc rows)
            = filter (\<lambda>r. abs_log2FC r = k) rows" for k
    unfolding stable_sort_abs_desc_def
    by (rule sort_by_stable) (simp add: desc_nan_last_refl)
  show ?thesis using 1 2 3 by blast
qed

lemma desc_sort_stable: "desc_sort stable_sort_abs_desc"
  by (simp add: desc_sort_def stable_sort_abs_desc_props)

text \<open>Where rows of equal key are equal rows, the sorted order is unique.\<close>

lemma sorted_permutation_unique:
  assumes "sorted_wrt le xs" and "sorted_wrt le ys" and "mset xs = mset ys"
    and "\<And>a b. a \<in> set xs \<Longrightarrow> b \<in> set xs \<Longrightarrow> le a b \<Longrightarrow> le b a \<Longrightarrow> a = b"
  shows "xs = ys"
  using assms
proof (induction xs arbitrary: ys)
  case Nil
  then show ?case by simp
next
  case (Cons x xs)
  from Cons.prems(3) obtain y ys' where ys: "ys = y # ys'"
    by (cases ys) auto
  have sets: "set (x # xs) = set (y # ys')"
    using Cons.prems(3) ys by (metis set_mset_mset)
  have xy: "x = y"
  proof (rule ccontr)
    assume ne: "x \<noteq> y"
    with sets have "x \<in> set ys'" and "y \<in> set xs" by auto
    with Cons.prems(1,2) ys have "le y x" and "le x y" by auto
    with Cons.prems(4) [of x y] sets have "x = y" by auto
    with ne show False by simp
  qed
  with Cons.prems(3) ys have m: "mset xs = mset ys'" by simp
  have "xs = ys'"
    using Cons.prems(1,2,4) ys m by (intro Cons.IH) auto
  with xy ys show ?case by simp
qed

section \<open>The rank table\<close>



lemma category_name_inj: "category_name a = category_name b \<longleftrightarrow> a = b"
  by (cases a; cases b) simp_all








lemma gene_table_without_important_genes:
  "create_gene_table bc G [(''A'', Other), (''B'', Other)] [] = Inl KeyError"
  by (simp add: create_gene_table_def table_data_def)


section \<open>Label selection\<close>

lemma append_new_set:
  "set (foldl (\<lambda>labels gene. if gene \<notin> set labels then labels @ [gene] else labels) l0 gs)
     = set l0 \<union> set gs"
  by (induction gs arbitrary: l0) auto

lemma important_nodes_set:
  "set (important_nodes cats) = {g. \<exists>c \<in> {Perturbed, Up, Down}. (g, c) \<in> set cats}"
  by (force simp: important_nodes_def node_categories_def)

lemma sorted_wrt_take_drop:
  assumes "sorted_wrt le xs" and "a \<in> set (take n xs)" and "b \<in> set (drop n xs)"
  shows "le a b"
proof -
  have "sorted_wrt le (take n xs @ drop n xs)" using assms(1) by simp
  then show ?thesis using assms(2,3) unfolding sorted_wrt_append by blast
qed

text \<open>
  Claim C1, as amended.  With at most 50 nodes every node is labelled.  With more than 50
  nodes the labelled set consists of the perturbed, up and down nodes and, when the table
  has a fold-change column, the genes of ten rows (all of them, if there are fewer) of
  largest absolute fold change among the rows whose gene is a node of the graph, rows
  without a value counting as smallest: the first ten such rows of the table as line 496
  sorts it.  The statement holds for every sort that returns the rows in descending
  order of the key; which of several rows of equal key come first is left open.
\<close>

theorem label_selection:
  assumes "desc_sort sort_values"
  shows "(length (nodes G) \<le> 50 \<longrightarrow> nodes_to_label sort_values G gene_categories degs = nodes G)
   \<and> (50 < length (nodes G) \<longrightarrow>
        set (nodes_to_label sort_values G gene_categories degs)
          = {g. \<exists>c \<in> {Perturbed, Up, Down}. (g, c) \<in> set gene_categories}
            \<union> (case deg_rows degs of
                 None \<Rightarrow> {}
               | Some rows \<Rightarrow> set (top_fc_genes sort_values G rows)))
   \<and> (\<forall>rows. deg_rows degs = Some rows \<longrightarrow>
        (\<exists>chosen rest.
           top_fc_genes sort_values G rows = map fst chosen
           \<and> mset (chosen @ rest) = mset (filter (\<lambda>row. fst row \<in> set (nodes G)) rows)
           \<and> length chosen = min 10 (length (filter (\<lambda>row. fst row \<in> set (nodes G)) rows))
           \<and> (\<forall>a \<in> set chosen. \<forall>b \<in> set rest.
                 desc_nan_last (abs_log2FC a) (abs_log2FC b))))"
proof (intro conjI allI impI)
  assume "length (nodes G) \<le> 50"
  then show "nodes_to_label sort_values G gene_categories degs = nodes G"
    by (simp add: nodes_to_label_def)
next
  assume "50 < length (nodes G)"
  then show "set (nodes_to_label sort_values G gene_categories degs)
          = {g. \<exists>c \<in> {Perturbed, Up, Down}. (g, c) \<in> set gene_categories}
            \<union> (case deg_rows degs of
                 None \<Rightarrow> {}
               | Some rows \<Rightarrow> set (top_fc_genes sort_values G rows))"
    by (simp add: nodes_to_label_def append_new_set important_nodes_set split: option.splits)
next
  fix rows assume "deg_rows degs = Some rows"
  let ?P = "\<lambda>row :: gene \<times> fc. fst row \<in> set (nodes G)"
  let ?le = "\<lambda>a b :: gene \<times> fc. desc_nan_last (abs_log2FC a) (abs_log2FC b)"
  let ?fs = "filter ?P (sort_values rows)"
  from assms have m: "mset (sort_values rows) = mset rows"
    and srt: "sorted_wrt ?le (sort_values rows)"
    by (simp_all add: desc_sort_def)
  have fm: "mset ?fs = mset (filter ?P rows)"
    using m by (metis mset_filter)
  have fsrt: "sorted_wrt ?le ?fs" using srt by (rule sorted_wrt_filter)
  have 1: "top_fc_genes sort_values G rows = map fst (take 10 ?fs)"
    by (simp add: top_fc_genes_def)
  have 2: "mset (take 10 ?fs @ drop 10 ?fs) = mset (filter ?P rows)"
    using fm by simp
  have "length ?fs = length (filter ?P rows)"
    using fm by (metis size_mset)
  then have 3: "length (take 10 ?fs) = min 10 (length (filter ?P rows))"
    by simp
  have 4: "\<forall>a \<in> set (take 10 ?fs). \<forall>b \<in> set (drop 10 ?fs). ?le a b"
    using sorted_wrt_take_drop [OF fsrt] by blast
  show "\<exists>chosen rest.
           top_fc_genes sort_values G rows = map fst chosen
           \<and> mset (chosen @ rest) = mset (filter ?P rows)
           \<and> length chosen = min 10 (length (filter ?P rows))
           \<and> (\<forall>a \<in> set chosen. \<forall>b \<in> set rest. ?le a b)"
    using 1 2 3 4 by blast
qed

text \<open>
  The table of the star has equal keys only on equal rows, so every sort in descending
  order returns the same list and the labels of the star do not depend on the sort.
\<close>

lemma star_rows_sorted_unique:
  assumes "desc_sort sort_values"
  shows "sort_values star_rows = stable_sort_abs_desc star_rows"
proof -
  let ?le = "\<lambda>a b :: gene \<times> fc. desc_nan_last (abs_log2FC a) (abs_log2FC b)"
  have anti: "\<forall>a \<in> set star_rows. \<forall>b \<in> set star_rows. ?le a b \<and> ?le b a \<longrightarrow> a = b"
    by (simp add: star_rows_def abs_log2FC_def)
  from assms have m: "mset (sort_values star_rows) = mset star_rows"
    and s: "sorted_wrt ?le (sort_values star_rows)"
    by (simp_all add: desc_sort_def)
  from m have st: "set (sort_values star_rows) = set star_rows" by (metis set_mset_mset)
  show ?thesis
  proof (rule sorted_permutation_unique [of ?le])
    show "sorted_wrt ?le (sort_values star_rows)" by (rule s)
    show "sorted_wrt ?le (stable_sort_abs_desc star_rows)"
      by (simp add: stable_sort_abs_desc_props)
    show "mset (sort_values star_rows) = mset (stable_sort_abs_desc star_rows)"
      using m by (simp add: stable_sort_abs_desc_props)
    show "a = b" if "a \<in> set (sort_values star_rows)" "b \<in> set (sort_values star_rows)"
      "?le a b" "?le b a" for a b
      using that anti st by blast
  qed
qed

lemma star_deg_rows: "deg_rows star_degs = Some star_rows"
  by (simp add: deg_rows_def star_degs_def star_rows_def)

lemma star_labels_sort_independent:
  assumes "desc_sort sort_values"
  shows "nodes_to_label sort_values star_graph cats star_degs
           = nodes_to_label stable_sort_abs_desc star_graph cats star_degs"
  by (simp add: nodes_to_label_def top_fc_genes_def star_deg_rows
        star_rows_sorted_unique [OF assms])

text \<open>
  Claim C1, as stated, fails: gene CC is a node that is not selected and is among the ten
  nodes of largest absolute fold change, yet the ten first rows are taken before the
  selected genes are dropped, and they are rows, not nodes, so CC gets no label.
\<close>

theorem label_selection_counterexample:
  "50 < length (nodes star_graph)
   \<and> nodes_to_label stable_sort_abs_desc star_graph
         (categorize_genes [''HUB''] star_degs star_graph) star_degs
       = [''HUB'', ''AA'', ''AB'', ''AC'', ''AD'', ''AE'', ''AF'', ''AG'', ''AH'', ''DD'']
   \<and> spec_nodes_to_label star_graph (categorize_genes [''HUB''] star_degs star_graph) star_degs
       = [''HUB'', ''AA'', ''AB'', ''AC'', ''AD'', ''AE'', ''AF'', ''AG'', ''AH'', ''DD'', ''CC'']
   \<and> ''CC'' \<in> set (nodes star_graph)
   \<and> ''CC'' \<notin> set (nodes_to_label stable_sort_abs_desc star_graph
                      (categorize_genes [''HUB''] star_degs star_graph) star_degs)"
  by code_simp

theorem label_selection_witness:
  "nodes_to_label stable_sort_abs_desc small_graph
       (categorize_genes [''A''] small_degs small_graph) small_degs
     = [''A'', ''B'', ''C'', ''D'']
   \<and> ''AA'' \<in> set (nodes_to_label stable_sort_abs_desc star_graph
                      (categorize_genes [''HUB''] star_degs star_graph) star_degs)
   \<and> (''DD'', Other) \<in> set (categorize_genes [''HUB''] star_degs star_graph)
   \<and> ''DD'' \<in> set (nodes_to_label stable_sort_abs_desc star_graph
                      (categorize_genes [''HUB''] star_degs star_graph) star_degs)
   \<and> ''CC'' \<notin> set (nodes_to_label stable_sort_abs_desc star_graph
                      (categorize_genes [''HUB''] star_degs star_graph) star_degs)"
proof -
  let ?cats = "categorize_genes [''HUB''] star_degs star_graph"
  have s: "length (nodes small_graph) \<le> 50" and n: "nodes small_graph = [''A'', ''B'', ''C'', ''D'']"
    by code_simp+
  have l: "50 < length (nodes star_graph)" by code_simp
  have a: "(''AA'', Up) \<in> set ?cats" and o: "(''DD'', Other) \<in> set ?cats" by code_simp+
  have t: "top_fc_genes stable_sort_abs_desc star_graph star_rows
             = [''AA'', ''AB'', ''AC'', ''AD'', ''AE'', ''AF'', ''AG'', ''AH'', ''DD'', ''DD'']"
    by code_simp
  have c: "(''CC'', Perturbed) \<notin> set ?cats \<and> (''CC'', Up) \<notin> set ?cats
           \<and> (''CC'', Down) \<notin> set ?cats"
    by code_simp
  note th = label_selection [OF desc_sort_stable]
  from th [of small_graph "categorize_genes [''A''] small_degs small_graph" small_degs] s n
  have 1: "nodes_to_label stable_sort_abs_desc small_graph
             (categorize_genes [''A''] small_degs small_graph) small_degs
     = [''A'', ''B'', ''C'', ''D'']" by simp
  from th [of star_graph ?cats star_degs] l
  have e: "set (nodes_to_label stable_sort_abs_desc star_graph ?cats star_degs)
          = {g. \<exists>c \<in> {Perturbed, Up, Down}. (g, c) \<in> set ?cats}
            \<union> set (top_fc_genes stable_sort_abs_desc star_graph star_rows)"
    by (simp add: star_deg_rows)
  from e a have 2: "''AA'' \<in> set (nodes_to_label stable_sort_abs_desc star_graph ?cats star_degs)"
    by blast
  from e t have 3: "''DD'' \<in> set (nodes_to_label stable_sort_abs_desc star_graph ?cats star_degs)"
    by simp
  from e t c have 4: "''CC'' \<notin> set (nodes_to_label stable_sort_abs_desc star_graph ?cats star_degs)"
    by auto
  from 1 2 o 3 4 show ?thesis by simp
qed

end
